theory Spec2Isabelle
  imports Complex_Main
begin

section \<open>Wire values and raw records (data/connectors/types.py)\<close>

text \<open>
  The exceptions the modelled code can raise, as values.  \<open>KeyError\<close> carries the
  missing key; \<open>HTTPStatusError\<close> is what \<open>response.raise_for_status()\<close> raises.
\<close>

datatype error =
    IndexError
  | KeyError string
  | ValueError
  | TypeError
  | InvalidOperation
  | HTTPStatusError

text \<open>
  What \<open>response.json()\<close> and \<open>json.loads\<close> return, typed \<open>Any\<close> in the source.  A JSON
  object is the Python \<open>dict\<close> it decodes to, an association list read with \<open>map_of\<close>.
  Numbers on this wire are integers (epoch milliseconds, identifiers, counts); decimal
  quantities travel as text.
\<close>

datatype json =
    JNull
  | JBool bool
  | JInt int
  | JStr string
  | JList "json list"
  | JObj "(string \<times> json) list"

type_synonym dict = "(string \<times> json) list"

text \<open>\<open>d[key]\<close> on a dict, \<open>row[i]\<close> on a list, \<open>x[key]\<close> on a value of any type.\<close>

definition dict_get :: "dict \<Rightarrow> string \<Rightarrow> error + json" where
  "dict_get d k = (case map_of d k of None \<Rightarrow> Inl (KeyError k) | Some v \<Rightarrow> Inr v)"

definition list_get :: "json list \<Rightarrow> nat \<Rightarrow> error + json" where
  "list_get row i = (if i < length row then Inr (row ! i) else Inl IndexError)"

fun py_getitem :: "json \<Rightarrow> string \<Rightarrow> error + json" where
  "py_getitem (JObj d) k = dict_get d k"
| "py_getitem _ k = Inl TypeError"

text \<open>
  \<open>int(x)\<close>: an integer is itself, a bool is 0 or 1, \<open>None\<close>, lists and dicts are a
  \<open>TypeError\<close>.  What \<open>int\<close> makes of a text is the built-in's business and is taken as
  the parameter \<open>istr\<close> (\<open>None\<close> where it raises \<open>ValueError\<close>).
\<close>

fun py_int :: "(string \<Rightarrow> int option) \<Rightarrow> json \<Rightarrow> error + int" where
  "py_int istr (JInt n) = Inr n"
| "py_int istr (JBool b) = Inr (if b then 1 else 0)"
| "py_int istr (JStr s) = (case istr s of None \<Rightarrow> Inl ValueError | Some n \<Rightarrow> Inr n)"
| "py_int istr _ = Inl TypeError"

text \<open>Truth value of \<open>x\<close> in \<open>if x:\<close>.\<close>

fun truthy :: "json \<Rightarrow> bool" where
  "truthy JNull = False"
| "truthy (JBool b) = b"
| "truthy (JInt n) = (n \<noteq> 0)"
| "truthy (JStr s) = (s \<noteq> [])"
| "truthy (JList xs) = (xs \<noteq> [])"
| "truthy (JObj d) = (d \<noteq> [])"

datatype KlineInterval =
  M1 | M3 | M5 | M15 | M30 | H1 | H2 | H4 | H6 | H8 | H12 | D1 | D3 | W1 | MO1

fun interval_value :: "KlineInterval \<Rightarrow> string" where
  "interval_value M1 = ''1m''"
| "interval_value M3 = ''3m''"
| "interval_value M5 = ''5m''"
| "interval_value M15 = ''15m''"
| "interval_value M30 = ''30m''"
| "interval_value H1 = ''1h''"
| "interval_value H2 = ''2h''"
| "interval_value H4 = ''4h''"
| "interval_value H6 = ''6h''"
| "interval_value H8 = ''8h''"
| "interval_value H12 = ''12h''"
| "interval_value D1 = ''1d''"
| "interval_value D3 = ''3d''"
| "interval_value W1 = ''1w''"
| "interval_value MO1 = ''1M''"

text \<open>
  The raw records are \<open>TypedDict\<close>s: the parsers convert the fields they pass through
  \<open>int\<close> and store every other field as it came, unchecked, so those fields hold a
  \<open>json\<close> value whatever their annotation says.  The field \<open>id\<close> of a raw trade is
  \<open>trade_id\<close> here, \<open>id\<close> being HOL's identity function.
\<close>

record RawKline =
  open_time_ms :: int
  "open" :: json
  high :: json
  low :: json
  close :: json
  volume :: json
  close_time_ms :: int
  quote_volume :: json
  trade_count :: int
  taker_buy_volume :: json
  taker_buy_quote_volume :: json

record RawTrade =
  trade_id :: json
  price :: json
  qty :: json
  quote_qty :: json
  time :: json
  is_buyer_maker :: json

record RawFundingRate =
  symbol :: json
  funding_time_ms :: int
  funding_rate :: json
  mark_price :: json

record RawMarkPrice =
  symbol :: json
  mark_price :: json
  index_price :: json
  last_funding_rate :: json
  next_funding_time_ms :: int
  time_ms :: int


section \<open>Canonical types (data/types.py)\<close>

text \<open>
  The canonical records are generic in the type \<open>'d\<close> of their \<open>Decimal\<close> fields.  A
  \<open>datetime\<close> is its count of microseconds since the epoch.  A dataclass does not check
  its field annotations: \<open>is_buyer_maker\<close> and the symbol of a funding rate hold whatever
  value the wire carried.
\<close>

record 'd FundingRate =
  symbol :: json
  funding_rate :: 'd
  mark_price :: 'd
  timestamp :: int
  next_funding_time :: "int option"

record 'd Trade =
  symbol :: string
  price :: 'd
  quantity :: 'd
  timestamp :: int
  is_buyer_maker :: json

record 'd Bar =
  symbol :: string
  "open" :: 'd
  high :: 'd
  low :: 'd
  close :: 'd
  volume :: 'd
  trade_count :: int
  timestamp :: int
  close_time :: int

record 'd TickBar = "'d Bar" +
  tick_threshold :: int

record 'd VolumeBar = "'d Bar" +
  volume_threshold :: 'd

record 'd DollarBar = "'d Bar" +
  dollar_threshold :: 'd


section \<open>Bar aggregation (data/normalizers/bars.py)\<close>

text \<open>
  The aggregators are modelled on trades whose \<open>Decimal\<close> fields are their numeric
  values, rationals: comparison of Python decimals is by value, and sums and products
  are taken exactly (the context precision of 28 significant digits is assumed not to
  be exceeded, and the special values NaN and Infinity do not occur).
\<close>

text \<open>
  Python's \<open>max\<close> and \<open>min\<close> over a generator keep the first element and replace it
  by a later one that is strictly greater (smaller); \<open>sum(gen, Decimal(0))\<close> adds from
  the left, starting at zero.  On the empty sequence \<open>max\<close> and \<open>min\<close> raise.
\<close>

fun py_max :: "rat list \<Rightarrow> error + rat" where
  "py_max [] = Inl ValueError"
| "py_max (x # xs) = Inr (foldl (\<lambda>m y. if y > m then y else m) x xs)"

fun py_min :: "rat list \<Rightarrow> error + rat" where
  "py_min [] = Inl ValueError"
| "py_min (x # xs) = Inr (foldl (\<lambda>m y. if y < m then y else m) x xs)"

definition py_sum :: "rat list \<Rightarrow> rat" where
  "py_sum xs = foldl (+) 0 xs"

text \<open>
  The three helpers read \<open>trades[0]\<close> first, which raises \<open>IndexError\<close> on an empty
  bucket; on a non-empty one \<open>max\<close>, \<open>min\<close> and \<open>trades[-1]\<close> cannot fail.
\<close>

definition make_volume_bar :: "rat Trade list \<Rightarrow> rat \<Rightarrow> error + rat VolumeBar" where
  "make_volume_bar trades threshold =
     (case trades of
        [] \<Rightarrow> Inl IndexError
      | t0 # _ \<Rightarrow>
          (case py_max (map price trades) of
             Inl e \<Rightarrow> Inl e
           | Inr hi \<Rightarrow>
               (case py_min (map price trades) of
                  Inl e \<Rightarrow> Inl e
                | Inr lo \<Rightarrow>
                    Inr \<lparr> Bar.symbol = Trade.symbol t0,
                          open = price t0,
                          high = hi,
                          low = lo,
                          close = price (last trades),
                          volume = py_sum (map quantity trades),
                          trade_count = int (length trades),
                          Bar.timestamp = Trade.timestamp t0,
                          close_time = Trade.timestamp (last trades),
                          volume_threshold = threshold \<rparr>)))"

definition make_tick_bar :: "rat Trade list \<Rightarrow> int \<Rightarrow> error + rat TickBar" where
  "make_tick_bar trades threshold =
     (case trades of
        [] \<Rightarrow> Inl IndexError
      | t0 # _ \<Rightarrow>
          (case py_max (map price trades) of
             Inl e \<Rightarrow> Inl e
           | Inr hi \<Rightarrow>
               (case py_min (map price trades) of
                  Inl e \<Rightarrow> Inl e
                | Inr lo \<Rightarrow>
                    Inr \<lparr> Bar.symbol = Trade.symbol t0,
                          open = price t0,
                          high = hi,
                          low = lo,
                          close = price (last trades),
                          volume = py_sum (map quantity trades),
                          trade_count = int (length trades),
                          Bar.timestamp = Trade.timestamp t0,
                          close_time = Trade.timestamp (last trades),
                          tick_threshold = threshold \<rparr>)))"

definition make_dollar_bar :: "rat Trade list \<Rightarrow> rat \<Rightarrow> error + rat DollarBar" where
  "make_dollar_bar trades threshold =
     (case trades of
        [] \<Rightarrow> Inl IndexError
      | t0 # _ \<Rightarrow>
          (case py_max (map price trades) of
             Inl e \<Rightarrow> Inl e
           | Inr hi \<Rightarrow>
               (case py_min (map price trades) of
                  Inl e \<Rightarrow> Inl e
                | Inr lo \<Rightarrow>
                    Inr \<lparr> Bar.symbol = Trade.symbol t0,
                          open = price t0,
                          high = hi,
                          low = lo,
                          close = price (last trades),
                          volume = py_sum (map quantity trades),
                          trade_count = int (length trades),
                          Bar.timestamp = Trade.timestamp t0,
                          close_time = Trade.timestamp (last trades),
                          dollar_threshold = threshold \<rparr>)))"

text \<open>
  Each \<open>for trade in trades\<close> loop is a recursion over the remaining trades that
  carries the loop's variables: the bars emitted so far, the open bucket and, for the
  volume and dollar policies, the running accumulator.
\<close>

fun volume_loop ::
  "rat \<Rightarrow> rat Trade list \<Rightarrow> rat VolumeBar list \<Rightarrow> rat Trade list \<Rightarrow> rat \<Rightarrow> error + rat VolumeBar list" where
  "volume_loop threshold [] bars bucket cum_volume = Inr bars"
| "volume_loop threshold (trade # rest) bars bucket cum_volume =
     (let bucket' = bucket @ [trade];
          cum_volume' = cum_volume + quantity trade
      in if cum_volume' \<ge> threshold
         then (case make_volume_bar bucket' threshold of
                 Inl e \<Rightarrow> Inl e
               | Inr bar \<Rightarrow> volume_loop threshold rest (bars @ [bar]) [] 0)
         else volume_loop threshold rest bars bucket' cum_volume')"

definition build_volume_bars :: "rat Trade list \<Rightarrow> rat \<Rightarrow> error + rat VolumeBar list" where
  "build_volume_bars trades threshold = volume_loop threshold trades [] [] 0"

fun tick_loop ::
  "int \<Rightarrow> rat Trade list \<Rightarrow> rat TickBar list \<Rightarrow> rat Trade list \<Rightarrow> error + rat TickBar list" where
  "tick_loop threshold [] bars bucket = Inr bars"
| "tick_loop threshold (trade # rest) bars bucket =
     (let bucket' = bucket @ [trade]
      in if int (length bucket') \<ge> threshold
         then (case make_tick_bar bucket' threshold of
                 Inl e \<Rightarrow> Inl e
               | Inr bar \<Rightarrow> tick_loop threshold rest (bars @ [bar]) [])
         else tick_loop threshold rest bars bucket')"

definition build_tick_bars :: "rat Trade list \<Rightarrow> int \<Rightarrow> error + rat TickBar list" where
  "build_tick_bars trades threshold = tick_loop threshold trades [] []"



text \<open>
  For the proofs: the buckets a threshold-crossing fold closes, for a weight \<open>w\<close> per
  trade.  \<open>segments w th xs bucket\<close> lists the closed buckets when the fold continues on
  \<open>xs\<close> with \<open>bucket\<close> open.
\<close>

fun segments :: "('a \<Rightarrow> rat) \<Rightarrow> rat \<Rightarrow> 'a list \<Rightarrow> 'a list \<Rightarrow> 'a list list" where
  "segments w th [] bucket = []"
| "segments w th (x # xs) bucket =
     (if sum_list (map w (bucket @ [x])) \<ge> th
      then (bucket @ [x]) # segments w th xs []
      else segments w th xs (bucket @ [x]))"

text \<open>The invariants of a bar (section 3 of the specification).\<close>

definition bar_invariant :: "(rat, 'a) Bar_scheme \<Rightarrow> bool" where
  "bar_invariant b \<longleftrightarrow>
     low b \<le> Bar.open b \<and> Bar.open b \<le> high b \<and>
     low b \<le> close b \<and> close b \<le> high b \<and>
     0 \<le> volume b \<and> 1 \<le> trade_count b \<and> Bar.timestamp b \<le> close_time b"


text \<open>Sample trades for the concrete instances below.\<close>

definition t1 :: "rat Trade" where
  "t1 = \<lparr>Trade.symbol = ''BTCUSDT'', price = 100, quantity = 1, Trade.timestamp = 10, is_buyer_maker = JBool False\<rparr>"
definition t2 :: "rat Trade" where
  "t2 = \<lparr>Trade.symbol = ''BTCUSDT'', price = 98, quantity = 2, Trade.timestamp = 12, is_buyer_maker = JBool True\<rparr>"


definition scenario_trades :: "rat Trade list" where
  "scenario_trades =
     map (\<lambda>(p, q, ts). \<lparr>Trade.symbol = ''BTCUSDT'', price = p, quantity = q,
                         Trade.timestamp = ts, is_buyer_maker = JBool False\<rparr>)
       [(100, 1, 1), (101, 1, 2), (99, 1, 3), (102, 2, 4), (100, 1, 5), (103, 1, 6), (101, 1, 7)]"


section \<open>Parsers (data/connectors/binance.py, data/connectors/binance_futures.py)\<close>

text \<open>
  A raised exception ends the evaluation: \<open>ebind\<close> passes the first error on.  The
  keyword arguments of a constructor call are evaluated in the order they are written,
  and the binds below follow that order.
\<close>

definition ebind :: "error + 'a \<Rightarrow> ('a \<Rightarrow> error + 'b) \<Rightarrow> error + 'b" where
  "ebind m f = (case m of Inl e \<Rightarrow> Inl e | Inr v \<Rightarrow> f v)"

text \<open>
  \<open>_parse_rest_kline\<close>, \<open>_parse_ws_kline\<close>, \<open>_parse_rest_trade\<close> and \<open>_parse_ws_trade\<close>
  have the same text in the spot and in the futures connector.
\<close>

definition parse_rest_kline :: "(string \<Rightarrow> int option) \<Rightarrow> json list \<Rightarrow> error + RawKline" where
  "parse_rest_kline istr row =
     ebind (list_get row 0) (\<lambda>r0. ebind (py_int istr r0) (\<lambda>ot.
     ebind (list_get row 1) (\<lambda>op.
     ebind (list_get row 2) (\<lambda>hi.
     ebind (list_get row 3) (\<lambda>lo.
     ebind (list_get row 4) (\<lambda>cl.
     ebind (list_get row 5) (\<lambda>vol.
     ebind (list_get row 6) (\<lambda>r6. ebind (py_int istr r6) (\<lambda>ct.
     ebind (list_get row 7) (\<lambda>qv.
     ebind (list_get row 8) (\<lambda>r8. ebind (py_int istr r8) (\<lambda>tc.
     ebind (list_get row 9) (\<lambda>tbv.
     ebind (list_get row 10) (\<lambda>tbq.
       Inr \<lparr> open_time_ms = ot, RawKline.open = op, RawKline.high = hi, RawKline.low = lo,
             RawKline.close = cl, RawKline.volume = vol, close_time_ms = ct,
             quote_volume = qv, RawKline.trade_count = tc, taker_buy_volume = tbv,
             taker_buy_quote_volume = tbq \<rparr>))))))))))))))"

definition parse_ws_kline :: "(string \<Rightarrow> int option) \<Rightarrow> json \<Rightarrow> error + RawKline" where
  "parse_ws_kline istr k =
     ebind (py_getitem k ''t'') (\<lambda>r0. ebind (py_int istr r0) (\<lambda>ot.
     ebind (py_getitem k ''o'') (\<lambda>op.
     ebind (py_getitem k ''h'') (\<lambda>hi.
     ebind (py_getitem k ''l'') (\<lambda>lo.
     ebind (py_getitem k ''c'') (\<lambda>cl.
     ebind (py_getitem k ''v'') (\<lambda>vol.
     ebind (py_getitem k ''T'') (\<lambda>r6. ebind (py_int istr r6) (\<lambda>ct.
     ebind (py_getitem k ''q'') (\<lambda>qv.
     ebind (py_getitem k ''n'') (\<lambda>r8. ebind (py_int istr r8) (\<lambda>tc.
     ebind (py_getitem k ''V'') (\<lambda>tbv.
     ebind (py_getitem k ''Q'') (\<lambda>tbq.
       Inr \<lparr> open_time_ms = ot, RawKline.open = op, RawKline.high = hi, RawKline.low = lo,
             RawKline.close = cl, RawKline.volume = vol, close_time_ms = ct,
             quote_volume = qv, RawKline.trade_count = tc, taker_buy_volume = tbv,
             taker_buy_quote_volume = tbq \<rparr>))))))))))))))"


text \<open>
  The stream omits \<open>quoteQty\<close>; the parser computes \<open>str(Decimal(p) * Decimal(q))\<close>.  The
  decimal library is taken as parameters: \<open>dec\<close> is the constructor \<open>Decimal\<close> on a wire
  value, \<open>mulstr\<close> the product of two decimals rendered by \<open>str\<close>.
\<close>

definition parse_ws_trade ::
  "(json \<Rightarrow> error + 'd) \<Rightarrow> ('d \<Rightarrow> 'd \<Rightarrow> error + string) \<Rightarrow> dict \<Rightarrow> error + RawTrade" where
  "parse_ws_trade dec mulstr data =
     ebind (dict_get data ''p'') (\<lambda>p0. ebind (dec p0) (\<lambda>dp.
     ebind (dict_get data ''q'') (\<lambda>q0. ebind (dec q0) (\<lambda>dq.
     ebind (mulstr dp dq) (\<lambda>qq.
     ebind (dict_get data ''t'') (\<lambda>i.
     ebind (dict_get data ''p'') (\<lambda>p.
     ebind (dict_get data ''q'') (\<lambda>q.
     ebind (dict_get data ''T'') (\<lambda>t.
     ebind (dict_get data ''m'') (\<lambda>m.
       Inr \<lparr> trade_id = i, RawTrade.price = p, qty = q, quote_qty = JStr qq, time = t,
             RawTrade.is_buyer_maker = m \<rparr>))))))))))"



definition parse_ws_mark_price :: "(string \<Rightarrow> int option) \<Rightarrow> dict \<Rightarrow> error + RawMarkPrice" where
  "parse_ws_mark_price istr data =
     ebind (dict_get data ''s'') (\<lambda>s.
     ebind (dict_get data ''p'') (\<lambda>mp.
     ebind (dict_get data ''i'') (\<lambda>ip.
     ebind (dict_get data ''r'') (\<lambda>fr.
     ebind (dict_get data ''T'') (\<lambda>r4. ebind (py_int istr r4) (\<lambda>nft.
     ebind (dict_get data ''E'') (\<lambda>r5. ebind (py_int istr r5) (\<lambda>tm.
       Inr \<lparr> RawMarkPrice.symbol = s, RawMarkPrice.mark_price = mp, index_price = ip,
             last_funding_rate = fr, next_funding_time_ms = nft, time_ms = tm \<rparr>))))))))"


section \<open>Connectors (data/connectors/binance.py, data/connectors/binance_futures.py)\<close>

text \<open>
  One REST request is its path and its \<open>params\<close> dict.  The HTTP client is the parameter
  \<open>get\<close>: it answers a request with the decoded body of the response, or with the
  exception that \<open>get\<close> or \<open>raise_for_status\<close> raises.
\<close>

record request =
  path :: string
  params :: dict

text \<open>
  What a consumer of an asynchronous generator observes: the records yielded, in order,
  the requests issued with their answers, and the exception that ended the generator,
  if one did.
\<close>

record ('a, 'b) run =
  yielded :: "'a list"
  exchanges :: "(request \<times> (error + 'b)) list"
  raised :: "error option"

definition more :: "'a list \<Rightarrow> request \<times> (error + 'b) \<Rightarrow> ('a, 'b) run \<Rightarrow> ('a, 'b) run" where
  "more rows ex r = r\<lparr>yielded := rows @ yielded r, exchanges := ex # exchanges r\<rparr>"

text \<open>
  \<open>for row in batch: yield parse(row)\<close>: the rows parsed before the first failure are
  yielded, then the failure is raised.
\<close>

fun parse_rows :: "('r \<Rightarrow> error + 'a) \<Rightarrow> 'r list \<Rightarrow> 'a list \<times> error option" where
  "parse_rows f [] = ([], None)"
| "parse_rows f (r # rs) =
     (case f r of
        Inl e \<Rightarrow> ([], Some e)
      | Inr a \<Rightarrow> (case parse_rows f rs of (as, err) \<Rightarrow> (a # as, err)))"

text \<open>\<open>batch[-1]\<close>.\<close>

definition last_get :: "'r list \<Rightarrow> error + 'r" where
  "last_get batch = (if batch = [] then Inl IndexError else Inr (last batch))"



text \<open>
  The loop of \<open>fetch_klines\<close>, for a path and a page size.  The loop may not end (a
  transport that keeps answering with full pages), so it runs on fuel: one unit per
  request, and \<open>None\<close> when a request is due and the fuel is spent.
\<close>

fun fetch_klines_loop ::
  "nat \<Rightarrow> (string \<Rightarrow> int option) \<Rightarrow> (request \<Rightarrow> error + json list list) \<Rightarrow> string \<Rightarrow> int \<Rightarrow>
   string \<Rightarrow> KlineInterval \<Rightarrow> int \<Rightarrow> int \<Rightarrow> (RawKline, json list list) run option" where
  "fetch_klines_loop 0 istr get pth page symbol' interval end_ms cursor =
     (if cursor < end_ms then None
      else Some \<lparr>yielded = [], exchanges = [], raised = None\<rparr>)"
| "fetch_klines_loop (Suc fuel) istr get pth page symbol' interval end_ms cursor =
     (if cursor < end_ms then
        (let req = \<lparr>path = pth,
                    params = [(''symbol'', JStr symbol'),
                              (''interval'', JStr (interval_value interval)),
                              (''startTime'', JInt cursor),
                              (''endTime'', JInt end_ms),
                              (''limit'', JInt page)]\<rparr>
         in case get req of
              Inl e \<Rightarrow> Some \<lparr>yielded = [], exchanges = [(req, Inl e)], raised = Some e\<rparr>
            | Inr batch \<Rightarrow>
                (case parse_rows (parse_rest_kline istr) batch of
                   (rows, Some e) \<Rightarrow>
                     Some \<lparr>yielded = rows, exchanges = [(req, Inr batch)], raised = Some e\<rparr>
                 | (rows, None) \<Rightarrow>
                     if int (length batch) < page
                     then Some \<lparr>yielded = rows, exchanges = [(req, Inr batch)], raised = None\<rparr>
                     else (case ebind (last_get batch) (\<lambda>row.
                                 ebind (list_get row 6) (\<lambda>v.
                                 ebind (py_int istr v) (\<lambda>c. Inr (c + 1)))) of
                             Inl e \<Rightarrow>
                               Some \<lparr>yielded = rows, exchanges = [(req, Inr batch)],
                                     raised = Some e\<rparr>
                           | Inr cursor' \<Rightarrow>
                               map_option (more rows (req, Inr batch))
                                 (fetch_klines_loop fuel istr get pth page symbol' interval
                                    end_ms cursor'))))
      else Some \<lparr>yielded = [], exchanges = [], raised = None\<rparr>)"






section \<open>The exchange behind the transport\<close>

text \<open>
  Modelled from the spec: the page-bounded transport \<open>fetch_page\<close> of sections 4.1 and 6,
  which is the exchange's server and no part of the repository.  It holds a finite
  dataset and answers one request with the records whose opening time (settlement time,
  for funding rates) lies in \<open>[startTime, endTime]\<close>, in dataset order, at most \<open>limit\<close>
  of them; \<open>endTime\<close> may be absent from a funding-rate request.  A request without the
  parameters it needs is answered with an error status.
\<close>

definition kline_row :: "RawKline \<Rightarrow> json list" where
  "kline_row k =
     [JInt (open_time_ms k), RawKline.open k, RawKline.high k, RawKline.low k,
      RawKline.close k, RawKline.volume k, JInt (close_time_ms k), quote_volume k,
      JInt (RawKline.trade_count k), taker_buy_volume k, taker_buy_quote_volume k,
      JStr ''0'']"

definition in_range :: "int \<Rightarrow> int \<Rightarrow> RawKline \<Rightarrow> bool" where
  "in_range lo hi k \<longleftrightarrow> lo \<le> open_time_ms k \<and> open_time_ms k \<le> hi"

definition served :: "RawKline list \<Rightarrow> request \<Rightarrow> error + json list list" where
  "served ds req =
     (case (map_of (params req) ''startTime'', map_of (params req) ''endTime'',
            map_of (params req) ''limit'') of
        (Some (JInt s), Some (JInt e), Some (JInt l)) \<Rightarrow>
          Inr (map kline_row (take (nat l) (filter (in_range s e) ds)))
      | _ \<Rightarrow> Inl HTTPStatusError)"

text \<open>A single request over \<open>[start, end]\<close> with no page cap returns these records.\<close>

definition unpaged :: "RawKline list \<Rightarrow> int \<Rightarrow> int \<Rightarrow> RawKline list" where
  "unpaged ds start_ms end_ms = filter (in_range start_ms end_ms) ds"

text \<open>
  The dataset of a kline series: opening times increase, and every bar closes at or
  after its opening and before the next bar opens.
\<close>

fun series :: "RawKline list \<Rightarrow> bool" where
  "series [] = True"
| "series [k] = (open_time_ms k \<le> close_time_ms k)"
| "series (k # k' # ks) =
     (open_time_ms k \<le> close_time_ms k \<and> close_time_ms k < open_time_ms k' \<and> series (k' # ks))"



text \<open>Sample data for the concrete instances below.\<close>

definition no_istr :: "string \<Rightarrow> int option" where
  "no_istr s = None"


text \<open>The request that \<open>fetch_klines\<close> issues at a cursor.\<close>

definition kline_req :: "string \<Rightarrow> int \<Rightarrow> string \<Rightarrow> KlineInterval \<Rightarrow> int \<Rightarrow> int \<Rightarrow> request" where
  "kline_req pth page symbol' interval end_ms cursor =
     \<lparr>path = pth,
      params = [(''symbol'', JStr symbol'), (''interval'', JStr (interval_value interval)),
                (''startTime'', JInt cursor), (''endTime'', JInt end_ms),
                (''limit'', JInt page)]\<rparr>"

definition minute_kline :: "nat \<Rightarrow> RawKline" where
  "minute_kline i =
     \<lparr>open_time_ms = 60000 * int i, RawKline.open = JStr ''100.00'',
      RawKline.high = JStr ''101.00'', RawKline.low = JStr ''99.00'',
      RawKline.close = JStr ''100.50'', RawKline.volume = JStr ''2.00000000'',
      close_time_ms = 60000 * int i + 59999, quote_volume = JStr ''201.00'',
      RawKline.trade_count = 4, taker_buy_volume = JStr ''1.00000000'',
      taker_buy_quote_volume = JStr ''100.50''\<rparr>"

definition minute_klines :: "nat \<Rightarrow> RawKline list" where
  "minute_klines n = map minute_kline [0..<n]"


section \<open>Streams (stream_klines, stream_trades, stream_mark_price)\<close>

text \<open>
  A stream is read from a feed of messages, each already decoded by \<open>json.loads\<close> to the
  \<open>dict\<close> its annotation names; the feed is the finite list of messages received until
  the connection closes.  The result is the list of records yielded and the exception
  that ended the generator, if one did.  \<open>stream_klines\<close> has the same text in both
  connectors.
\<close>

fun stream_klines :: "(string \<Rightarrow> int option) \<Rightarrow> dict list \<Rightarrow> RawKline list \<times> error option" where
  "stream_klines istr [] = ([], None)"
| "stream_klines istr (data # rest) =
     (case dict_get data ''k'' of
        Inl e \<Rightarrow> ([], Some e)
      | Inr k \<Rightarrow>
          (case py_getitem k ''x'' of
             Inl e \<Rightarrow> ([], Some e)
           | Inr x \<Rightarrow>
               if truthy x
               then (case parse_ws_kline istr k of
                       Inl e \<Rightarrow> ([], Some e)
                     | Inr r \<Rightarrow> (case stream_klines istr rest of (rs, err) \<Rightarrow> (r # rs, err)))
               else stream_klines istr rest))"

definition stream_trades ::
  "(json \<Rightarrow> error + 'd) \<Rightarrow> ('d \<Rightarrow> 'd \<Rightarrow> error + string) \<Rightarrow> dict list \<Rightarrow> RawTrade list \<times> error option" where
  "stream_trades dec mulstr feed = parse_rows (parse_ws_trade dec mulstr) feed"

definition stream_mark_price ::
  "(string \<Rightarrow> int option) \<Rightarrow> dict list \<Rightarrow> RawMarkPrice list \<times> error option" where
  "stream_mark_price istr feed = parse_rows (parse_ws_mark_price istr) feed"

text \<open>The is-final indicator of a kline message: the truth value of its field \<open>k.x\<close>.\<close>

definition is_final :: "dict \<Rightarrow> bool" where
  "is_final data =
     (case dict_get data ''k'' of
        Inl e \<Rightarrow> False
      | Inr k \<Rightarrow> (case py_getitem k ''x'' of Inl e \<Rightarrow> False | Inr x \<Rightarrow> truthy x))"

text \<open>Sample messages for the concrete instances below.\<close>

definition kline_msg :: "int \<Rightarrow> bool \<Rightarrow> dict" where
  "kline_msg t final =
     [(''e'', JStr ''kline''), (''s'', JStr ''BTCUSDT''),
      (''k'', JObj [(''t'', JInt t), (''T'', JInt (t + 59999)), (''o'', JStr ''100.00''),
                    (''c'', JStr ''100.50''), (''h'', JStr ''101.00''), (''l'', JStr ''99.00''),
                    (''v'', JStr ''2.00000000''), (''n'', JInt 4), (''x'', JBool final),
                    (''q'', JStr ''201.00''), (''V'', JStr ''1.00000000''),
                    (''Q'', JStr ''100.50'')])]"

definition kline_feed :: "dict list" where
  "kline_feed =
     [kline_msg 0 False, kline_msg 0 False, kline_msg 0 True, kline_msg 60000 False,
      kline_msg 60000 True, kline_msg 120000 False, kline_msg 120000 False,
      kline_msg 120000 True]"

definition trade_msg :: "int \<Rightarrow> dict" where
  "trade_msg i =
     [(''e'', JStr ''trade''), (''s'', JStr ''BTCUSDT''), (''t'', JInt i), (''p'', JStr ''100.00''),
      (''q'', JStr ''0.50''), (''T'', JInt (1000 * i)), (''m'', JBool True)]"

definition mark_msg :: "int \<Rightarrow> dict" where
  "mark_msg t =
     [(''e'', JStr ''markPriceUpdate''), (''E'', JInt t), (''s'', JStr ''BTCUSDT''),
      (''p'', JStr ''42000.50''), (''i'', JStr ''42001.00''), (''r'', JStr ''0.00010000''),
      (''T'', JInt (t + 28800000))]"


section \<open>Normalizers (data/normalizers/binance.py, data/normalizers/binance_futures.py)\<close>










section \<open>Decimal text (Python's decimal module)\<close>

text \<open>
  The normalizers build every numeric field with \<open>Decimal(text)\<close>, and the trade parser
  renders a decimal with \<open>str\<close>.  Both belong to Python's \<open>decimal\<close> module; they are
  modelled here after that module, as far as wire texts need it.  A finite decimal is
  its sign (\<open>True\<close> for minus), its coefficient as a digit text without leading zeros, and
  its exponent.
\<close>

datatype decimal = Decimal (dsign: bool) (dint: string) (dexp: int)

definition is_digit :: "char \<Rightarrow> bool" where
  "is_digit c \<longleftrightarrow> c \<in> set ''0123456789''"

text \<open>\<open>str(int(digits))\<close> on a digit text: the leading zeros go, a lone \<open>0\<close> stays.\<close>

definition strip_zeros :: "string \<Rightarrow> string" where
  "strip_zeros ds = (let r = dropWhile (\<lambda>c. c = CHR ''0'') ds in if r = [] then ''0'' else r)"

text \<open>
  \<open>Decimal(text)\<close> on a text in plain notation: an optional sign, integer digits, and
  optionally a point and fraction digits, with a digit somewhere.  The coefficient is
  all the digits, the exponent minus the number of fraction digits.  On any other text
  the model answers \<open>None\<close> and says nothing: Python accepts further forms (exponent
  notation, \<open>NaN\<close>, \<open>Infinity\<close>, padding, underscores) and rejects the rest.
\<close>

definition plain_number :: "bool \<Rightarrow> string \<Rightarrow> decimal option" where
  "plain_number neg body =
     (let ip = takeWhile is_digit body; rest = dropWhile is_digit body
      in case rest of
           [] \<Rightarrow> if ip = [] then None
                 else Some (Decimal neg (strip_zeros ip) 0)
         | c # fr \<Rightarrow>
             if c = CHR ''.'' \<and> list_all is_digit fr \<and> (ip \<noteq> [] \<or> fr \<noteq> [])
             then Some (Decimal neg (strip_zeros (ip @ fr)) (- int (length fr)))
             else None)"

fun Decimal_plain :: "string \<Rightarrow> decimal option" where
  "Decimal_plain [] = None"
| "Decimal_plain (c # cs) =
     (if c = CHR ''-'' then plain_number True cs
      else if c = CHR ''+'' then plain_number False cs
      else plain_number False (c # cs))"

text \<open>The decimal digits of a natural number, and \<open>"%+d" % n\<close>.\<close>

fun digits_of_nat :: "nat \<Rightarrow> string" where
  "digits_of_nat n =
     (if n < 10 then [''0123456789'' ! n]
      else digits_of_nat (n div 10) @ [''0123456789'' ! (n mod 10)])"

definition signed_digits :: "int \<Rightarrow> string" where
  "signed_digits n = (if n < 0 then ''-'' else ''+'') @ digits_of_nat (nat \<bar>n\<bar>)"

text \<open>
  \<open>str(d)\<close> for a finite decimal, under the default context: plain notation when the
  exponent is at most 0 and more than \<open>-6\<close> digits stand left of the point, scientific
  notation with one digit before the point otherwise.
\<close>

definition Decimal_str :: "decimal \<Rightarrow> string" where
  "Decimal_str d =
     (let sign = (if dsign d then ''-'' else '''');
          n = int (length (dint d));
          leftdigits = dexp d + n;
          dotplace = (if dexp d \<le> 0 \<and> leftdigits > - 6 then leftdigits else 1);
          intpart = (if dotplace \<le> 0 then ''0''
                     else if dotplace \<ge> n then dint d @ replicate (nat (dotplace - n)) CHR ''0''
                     else take (nat dotplace) (dint d));
          fracpart = (if dotplace \<le> 0 then ''.'' @ replicate (nat (- dotplace)) CHR ''0'' @ dint d
                      else if dotplace \<ge> n then ''''
                      else ''.'' @ drop (nat dotplace) (dint d));
          exp = (if leftdigits = dotplace then ''''
                 else ''E'' @ signed_digits (leftdigits - dotplace))
      in sign @ intpart @ fracpart @ exp)"


text \<open>
  A sample \<open>Decimal\<close> on wire values for the instances: the model above on plain texts,
  an error on everything else.
\<close>

definition sample_dec :: "json \<Rightarrow> error + decimal" where
  "sample_dec v =
     (case v of
        JStr s \<Rightarrow> (case Decimal_plain s of None \<Rightarrow> Inl InvalidOperation | Some d \<Rightarrow> Inr d)
      | _ \<Rightarrow> Inl TypeError)"

text \<open>
  The product of two finite decimals rendered by \<open>str\<close>: signs combine, coefficients
  multiply, exponents add.  This is Python's result as long as the coefficient of the
  product has at most 28 digits, the precision of the default context.
\<close>

definition digit_value :: "char \<Rightarrow> nat" where
  "digit_value c = length (takeWhile (\<lambda>d. d \<noteq> c) ''0123456789'')"

definition nat_of_digits :: "string \<Rightarrow> nat" where
  "nat_of_digits ds = foldl (\<lambda>n c. 10 * n + digit_value c) 0 ds"

definition sample_mulstr :: "decimal \<Rightarrow> decimal \<Rightarrow> error + string" where
  "sample_mulstr a b =
     Inr (Decimal_str
            (Decimal (dsign a \<noteq> dsign b)
               (digits_of_nat (nat_of_digits (dint a) * nat_of_digits (dint b)))
               (dexp a + dexp b)))"


section \<open>Required fields of the wire payloads\<close>















section \<open>Properties\<close>

subsection \<open>Bar aggregation\<close>

lemma py_sum_eq: "py_sum xs = sum_list xs"
proof -
  have "foldl (+) a xs = a + sum_list xs" for a :: rat
    by (induction xs arbitrary: a) (simp_all add: add.assoc)
  then show ?thesis by (simp add: py_sum_def)
qed

lemma foldl_max_ge: "m \<le> foldl (\<lambda>m y. if y > m then y else m) (m::rat) xs"
  by (induction xs arbitrary: m) (auto intro: order_trans less_imp_le)

lemma foldl_max_ub: "y \<in> set xs \<Longrightarrow> y \<le> foldl (\<lambda>m y. if y > m then y else m) (m::rat) xs"
proof (induction xs arbitrary: m)
  case Nil then show ?case by simp
next
  case (Cons x xs)
  show ?case
  proof (cases "y = x")
    case True
    have "x \<le> (if x > m then x else m)" by simp
    also have "\<dots> \<le> foldl (\<lambda>m y. if y > m then y else m) (if x > m then x else m) xs"
      by (rule foldl_max_ge)
    finally show ?thesis using True by simp
  next
    case False
    with Cons.prems have "y \<in> set xs" by simp
    from Cons.IH[OF this] show ?thesis by simp
  qed
qed

lemma foldl_min_le: "foldl (\<lambda>m y. if y < m then y else m) (m::rat) xs \<le> m"
  by (induction xs arbitrary: m) (auto intro: order_trans less_imp_le)

lemma foldl_min_lb: "y \<in> set xs \<Longrightarrow> foldl (\<lambda>m y. if y < m then y else m) (m::rat) xs \<le> y"
proof (induction xs arbitrary: m)
  case Nil then show ?case by simp
next
  case (Cons x xs)
  show ?case
  proof (cases "y = x")
    case True
    have "foldl (\<lambda>m y. if y < m then y else m) (if x < m then x else m) xs \<le> (if x < m then x else m)"
      by (rule foldl_min_le)
    also have "\<dots> \<le> x" by simp
    finally show ?thesis using True by simp
  next
    case False
    with Cons.prems have "y \<in> set xs" by simp
    from Cons.IH[OF this] show ?thesis by simp
  qed
qed

lemma py_max_bounds:
  assumes "xs \<noteq> []"
  shows "\<exists>hi. py_max xs = Inr hi \<and> (\<forall>y\<in>set xs. y \<le> hi)"
proof -
  from assms obtain x r where xs: "xs = x # r" by (cases xs) auto
  show ?thesis unfolding xs using foldl_max_ge[of x r] foldl_max_ub[of _ r x] by auto
qed

lemma py_min_bounds:
  assumes "xs \<noteq> []"
  shows "\<exists>lo. py_min xs = Inr lo \<and> (\<forall>y\<in>set xs. lo \<le> y)"
proof -
  from assms obtain x r where xs: "xs = x # r" by (cases xs) auto
  show ?thesis unfolding xs using foldl_min_le[of x r] foldl_min_lb[of _ r x] by auto
qed


lemma sorted_first_le_last:
  assumes "sorted (map f xs)" "xs \<noteq> []"
  shows "(f (hd xs) :: int) \<le> f (last xs)"
proof -
  from assms(2) obtain x r where xs: "xs = x # r" by (cases xs) auto
  show ?thesis
  proof (cases "r = []")
    case True then show ?thesis using xs by simp
  next
    case False
    then have "last r \<in> set r" by simp
    with assms(1) xs show ?thesis using False by auto
  qed
qed

lemma sum_list_nonneg_rat: "\<forall>x\<in>set xs. (0::rat) \<le> x \<Longrightarrow> 0 \<le> sum_list xs"
  by (induction xs) auto

lemma make_volume_bar_ok:
  assumes ne: "bucket \<noteq> []"
  shows "\<exists>b. make_volume_bar bucket th = Inr b \<and>
             low b \<le> Bar.open b \<and> Bar.open b \<le> high b \<and>
             low b \<le> close b \<and> close b \<le> high b \<and>
             volume b = sum_list (map quantity bucket) \<and>
             trade_count b = int (length bucket) \<and>
             Bar.timestamp b = Trade.timestamp (hd bucket) \<and>
             close_time b = Trade.timestamp (last bucket)"
proof -
  from ne obtain t0 r where bk: "bucket = t0 # r" by (cases bucket) auto
  from ne have ne': "map price bucket \<noteq> []" by simp
  from py_max_bounds[OF ne'] obtain hi where
    hi: "py_max (map price bucket) = Inr hi" "\<forall>y\<in>set (map price bucket). y \<le> hi" by blast
  from py_min_bounds[OF ne'] obtain lo where
    lo: "py_min (map price bucket) = Inr lo" "\<forall>y\<in>set (map price bucket). lo \<le> y" by blast
  have m1: "price t0 \<in> set (map price bucket)" using bk by simp
  have m2: "price (last bucket) \<in> set (map price bucket)" using ne by simp
  show ?thesis
    using hi lo m1 m2 unfolding make_volume_bar_def
    by (simp add: bk py_sum_eq del: py_max.simps py_min.simps)
qed


lemma make_tick_bar_ok:
  assumes ne: "bucket \<noteq> []"
  shows "\<exists>b. make_tick_bar bucket th = Inr b \<and>
             low b \<le> Bar.open b \<and> Bar.open b \<le> high b \<and>
             low b \<le> close b \<and> close b \<le> high b \<and>
             volume b = sum_list (map quantity bucket) \<and>
             trade_count b = int (length bucket) \<and>
             Bar.timestamp b = Trade.timestamp (hd bucket) \<and>
             close_time b = Trade.timestamp (last bucket)"
proof -
  from ne obtain t0 r where bk: "bucket = t0 # r" by (cases bucket) auto
  from ne have ne': "map price bucket \<noteq> []" by simp
  from py_max_bounds[OF ne'] obtain hi where
    hi: "py_max (map price bucket) = Inr hi" "\<forall>y\<in>set (map price bucket). y \<le> hi" by blast
  from py_min_bounds[OF ne'] obtain lo where
    lo: "py_min (map price bucket) = Inr lo" "\<forall>y\<in>set (map price bucket). lo \<le> y" by blast
  have m1: "price t0 \<in> set (map price bucket)" using bk by simp
  have m2: "price (last bucket) \<in> set (map price bucket)" using ne by simp
  show ?thesis
    using hi lo m1 m2 unfolding make_tick_bar_def
    by (simp add: bk py_sum_eq del: py_max.simps py_min.simps)
qed

lemma make_dollar_bar_ok:
  assumes ne: "bucket \<noteq> []"
  shows "\<exists>b. make_dollar_bar bucket th = Inr b \<and>
             low b \<le> Bar.open b \<and> Bar.open b \<le> high b \<and>
             low b \<le> close b \<and> close b \<le> high b \<and>
             volume b = sum_list (map quantity bucket) \<and>
             trade_count b = int (length bucket) \<and>
             Bar.timestamp b = Trade.timestamp (hd bucket) \<and>
             close_time b = Trade.timestamp (last bucket)"
proof -
  from ne obtain t0 r where bk: "bucket = t0 # r" by (cases bucket) auto
  from ne have ne': "map price bucket \<noteq> []" by simp
  from py_max_bounds[OF ne'] obtain hi where
    hi: "py_max (map price bucket) = Inr hi" "\<forall>y\<in>set (map price bucket). y \<le> hi" by blast
  from py_min_bounds[OF ne'] obtain lo where
    lo: "py_min (map price bucket) = Inr lo" "\<forall>y\<in>set (map price bucket). lo \<le> y" by blast
  have m1: "price t0 \<in> set (map price bucket)" using bk by simp
  have m2: "price (last bucket) \<in> set (map price bucket)" using ne by simp
  show ?thesis
    using hi lo m1 m2 unfolding make_dollar_bar_def
    by (simp add: bk py_sum_eq del: py_max.simps py_min.simps)
qed

lemma ok_imp_invariant:
  assumes "low b \<le> Bar.open b" "Bar.open b \<le> high b" "low b \<le> close b" "close b \<le> high b"
    "volume b = sum_list (map quantity bucket)" "trade_count b = int (length bucket)"
    "Bar.timestamp b = Trade.timestamp (hd bucket)" "close_time b = Trade.timestamp (last bucket)"
    "bucket \<noteq> []" "sorted (map Trade.timestamp bucket)" "\<forall>t\<in>set bucket. 0 \<le> quantity t"
  shows "bar_invariant b"
proof -
  have v: "0 \<le> volume b" using assms(5,11) by (simp add: sum_list_nonneg_rat)
  have c: "1 \<le> trade_count b" using assms(6,9) by (cases bucket) auto
  have t: "Bar.timestamp b \<le> close_time b"
    using sorted_first_le_last[OF assms(10,9)] assms(7,8) by simp
  show ?thesis unfolding bar_invariant_def using assms(1-4) v c t by simp
qed

text \<open>
  Claim C5.  For every non-empty bucket of trades in chronological order whose quantities
  are not negative, each of the three helpers returns a bar, and that bar satisfies
  \<open>low \<le> open \<le> high\<close>, \<open>low \<le> close \<le> high\<close>, \<open>volume \<ge> 0\<close>, \<open>trade_count \<ge> 1\<close> and
  \<open>timestamp \<le> close_time\<close>.
\<close>

theorem bar_ohlc_invariant:
  assumes "bucket \<noteq> []" "sorted (map Trade.timestamp bucket)" "\<forall>t\<in>set bucket. 0 \<le> quantity t"
  shows "(\<exists>b. make_tick_bar bucket n = Inr b \<and> bar_invariant b) \<and>
         (\<exists>b. make_volume_bar bucket v = Inr b \<and> bar_invariant b) \<and>
         (\<exists>b. make_dollar_bar bucket d = Inr b \<and> bar_invariant b)"
proof (intro conjI)
  from make_tick_bar_ok[OF assms(1), of n] obtain b where b: "make_tick_bar bucket n = Inr b"
    and p: "low b \<le> Bar.open b" "Bar.open b \<le> high b" "low b \<le> close b" "close b \<le> high b"
    "volume b = sum_list (map quantity bucket)" "trade_count b = int (length bucket)"
    "Bar.timestamp b = Trade.timestamp (hd bucket)" "close_time b = Trade.timestamp (last bucket)"
    by blast
  show "\<exists>b. make_tick_bar bucket n = Inr b \<and> bar_invariant b"
    using b ok_imp_invariant[OF p assms] by blast
next
  from make_volume_bar_ok[OF assms(1), of v] obtain b where b: "make_volume_bar bucket v = Inr b"
    and p: "low b \<le> Bar.open b" "Bar.open b \<le> high b" "low b \<le> close b" "close b \<le> high b"
    "volume b = sum_list (map quantity bucket)" "trade_count b = int (length bucket)"
    "Bar.timestamp b = Trade.timestamp (hd bucket)" "close_time b = Trade.timestamp (last bucket)"
    by blast
  show "\<exists>b. make_volume_bar bucket v = Inr b \<and> bar_invariant b"
    using b ok_imp_invariant[OF p assms] by blast
next
  from make_dollar_bar_ok[OF assms(1), of d] obtain b where b: "make_dollar_bar bucket d = Inr b"
    and p: "low b \<le> Bar.open b" "Bar.open b \<le> high b" "low b \<le> close b" "close b \<le> high b"
    "volume b = sum_list (map quantity bucket)" "trade_count b = int (length bucket)"
    "Bar.timestamp b = Trade.timestamp (hd bucket)" "close_time b = Trade.timestamp (last bucket)"
    by blast
  show "\<exists>b. make_dollar_bar bucket d = Inr b \<and> bar_invariant b"
    using b ok_imp_invariant[OF p assms] by blast
qed

theorem bar_ohlc_invariant_witness:
  "[t1, t2] \<noteq> [] \<and> sorted (map Trade.timestamp [t1, t2]) \<and>
   0 \<le> quantity t1 \<and> 0 \<le> quantity t2 \<and>
   (\<exists>b. make_tick_bar [t1, t2] 2 = Inr b \<and> bar_invariant b) \<and>
   (\<exists>b. make_volume_bar [t1, t2] 3 = Inr b \<and> bar_invariant b) \<and>
   (\<exists>b. make_dollar_bar [t1, t2] 250 = Inr b \<and> bar_invariant b)"
proof -
  have h1: "[t1, t2] \<noteq> []" by simp
  have h2: "sorted (map Trade.timestamp [t1, t2])" by (simp add: t1_def t2_def)
  have q: "0 \<le> quantity t1" "0 \<le> quantity t2" by (simp_all add: t1_def t2_def)
  then have h3: "\<forall>t\<in>set [t1, t2]. 0 \<le> quantity t" by simp
  show ?thesis using bar_ohlc_invariant[OF h1 h2 h3, of 2 3 250] h1 h2 q by blast
qed






lemma sum_list_const_one: "sum_list (map (\<lambda>_. 1::rat) xs) = of_nat (length xs)"
  by (induction xs) simp_all

lemma tick_loop_segments:
  "\<exists>bars'. tick_loop T trades bars bucket = Inr (bars @ bars') \<and>
           list_all2 (\<lambda>b bar. make_tick_bar b T = Inr bar)
             (segments (\<lambda>_. 1) (of_int T) trades bucket) bars'"
proof (induction trades arbitrary: bars bucket)
  case Nil
  show ?case by simp
next
  case (Cons t ts)
  have c: "(of_int T \<le> sum_list (map (\<lambda>_. 1::rat) (bucket @ [t]))) = (T \<le> int (length (bucket @ [t])))"
  proof -
    have "sum_list (map (\<lambda>_. 1::rat) (bucket @ [t])) = of_int (int (length (bucket @ [t])))"
      by (simp only: sum_list_const_one of_int_of_nat_eq)
    then show ?thesis by (simp only: of_int_le_iff)
  qed
  show ?case
  proof (cases "T \<le> int (length (bucket @ [t]))")
    case True
    from make_tick_bar_ok[of "bucket @ [t]" T] obtain bar where
      bar: "make_tick_bar (bucket @ [t]) T = Inr bar" by auto
    from Cons.IH[of "bars @ [bar]" "[]"] obtain bars' where
      b': "tick_loop T ts (bars @ [bar]) [] = Inr ((bars @ [bar]) @ bars')"
      "list_all2 (\<lambda>b bar. make_tick_bar b T = Inr bar) (segments (\<lambda>_. 1) (of_int T) ts []) bars'"
      by auto
    have "tick_loop T (t # ts) bars bucket = Inr (bars @ (bar # bars'))"
      using True bar b'(1) by simp
    moreover have "list_all2 (\<lambda>b bar. make_tick_bar b T = Inr bar)
        (segments (\<lambda>_. 1) (of_int T) (t # ts) bucket) (bar # bars')"
      using True c bar b'(2) by simp
    ultimately show ?thesis by blast
  next
    case False
    from Cons.IH[of bars "bucket @ [t]"] obtain bars' where
      b': "tick_loop T ts bars (bucket @ [t]) = Inr (bars @ bars')"
      "list_all2 (\<lambda>b bar. make_tick_bar b T = Inr bar)
         (segments (\<lambda>_. 1) (of_int T) ts (bucket @ [t])) bars'"
      by auto
    have "tick_loop T (t # ts) bars bucket = Inr (bars @ bars')"
      using False b'(1) by simp
    moreover have "list_all2 (\<lambda>b bar. make_tick_bar b T = Inr bar)
        (segments (\<lambda>_. 1) (of_int T) (t # ts) bucket) bars'"
      using False c b'(2) by simp
    ultimately show ?thesis by blast
  qed
qed

lemma map_upt_Suc_shift: "map f [0..<Suc n] = f 0 # map (\<lambda>i. f (Suc i)) [0..<n]"
  by (simp add: map_upt_Suc del: upt_Suc)

lemma segments_tick_chunks:
  assumes "length bucket < T"
  shows "segments (\<lambda>_. 1) (of_nat T) xs bucket =
         map (\<lambda>i. take T (drop (i * T) (bucket @ xs))) [0..<(length bucket + length xs) div T]"
  using assms
proof (induction xs arbitrary: bucket)
  case Nil
  then show ?case by simp
next
  case (Cons x xs)
  have c: "((of_nat T :: rat) \<le> sum_list (map (\<lambda>_. 1::rat) (bucket @ [x]))) = (T \<le> length (bucket @ [x]))"
    by (simp only: sum_list_const_one of_nat_le_iff)
  show ?case
  proof (cases "T \<le> length (bucket @ [x])")
    case True
    with Cons.prems have len: "length (bucket @ [x]) = T" by simp
    then have Tpos: "0 < T" by auto
    have ih: "segments (\<lambda>_. 1) (of_nat T) xs [] =
         map (\<lambda>i. take T (drop (i * T) xs)) [0..<length xs div T]"
      using Cons.IH[of "[]"] Tpos by simp
    have d: "(length bucket + length (x # xs)) div T = Suc (length xs div T)"
    proof -
      have "length bucket + length (x # xs) = length xs + T" using len by simp
      then have "(length bucket + length (x # xs)) div T = (length xs + T) div T"
        by (rule arg_cong)
      also have "\<dots> = Suc (length xs div T)" using Tpos by simp
      finally show ?thesis .
    qed
    have f0: "take T (drop (0 * T) (bucket @ x # xs)) = bucket @ [x]"
    proof -
      have "take T ((bucket @ [x]) @ xs) = bucket @ [x]"
        using len by (simp only: take_append) simp
      then show ?thesis by simp
    qed
    have fS: "take T (drop (Suc i * T) (bucket @ x # xs)) = take T (drop (i * T) xs)" for i
    proof -
      have e: "Suc i * T = i * T + T" by simp
      have a: "bucket @ x # xs = (bucket @ [x]) @ xs" by simp
      have "drop (Suc i * T) (bucket @ x # xs) = drop (i * T) (drop T ((bucket @ [x]) @ xs))"
        by (simp only: drop_drop e a)
      also have "drop T ((bucket @ [x]) @ xs) = xs" using len by (simp only: drop_append) simp
      finally show ?thesis by simp
    qed
    have "segments (\<lambda>_. 1) (of_nat T) (x # xs) bucket = (bucket @ [x]) # segments (\<lambda>_. 1) (of_nat T) xs []"
      using True c by simp
    also have "\<dots> = (bucket @ [x]) # map (\<lambda>i. take T (drop (i * T) xs)) [0..<length xs div T]"
      by (simp only: ih)
    also have "\<dots> = map (\<lambda>i. take T (drop (i * T) (bucket @ x # xs))) [0..<Suc (length xs div T)]"
      by (simp only: map_upt_Suc_shift f0 fS)
    finally show ?thesis by (simp only: d)
  next
    case False
    then have l: "length (bucket @ [x]) < T" by simp
    have "segments (\<lambda>_. 1) (of_nat T) (x # xs) bucket = segments (\<lambda>_. 1) (of_nat T) xs (bucket @ [x])"
      using False c by simp
    also have "\<dots> = map (\<lambda>i. take T (drop (i * T) ((bucket @ [x]) @ xs)))
                       [0..<(length (bucket @ [x]) + length xs) div T]"
      by (rule Cons.IH[OF l])
    finally show ?thesis by simp
  qed
qed

text \<open>
  Claim C2.  For a list of \<open>N\<close> trades and an integer threshold \<open>T \<ge> 1\<close>,
  \<open>build_tick_bars\<close> returns exactly \<open>N div T\<close> bars; bar \<open>i\<close> is the one the helper makes
  from the \<open>T\<close> consecutive trades at positions \<open>i * T\<close> up to \<open>i * T + T - 1\<close>.  No bar is
  made from the last \<open>N mod T\<close> trades.
\<close>

theorem tick_bar_partition:
  assumes "1 \<le> T"
  shows "\<exists>bars. build_tick_bars trades T = Inr bars \<and>
           length bars = length trades div nat T \<and>
           (\<forall>i < length trades div nat T.
              make_tick_bar (take (nat T) (drop (i * nat T) trades)) T = Inr (bars ! i) \<and>
              length (take (nat T) (drop (i * nat T) trades)) = nat T)"
proof -
  from assms have Tn: "0 < nat T" and oi: "(of_int T :: rat) = of_nat (nat T)" by simp_all
  from tick_loop_segments[of T trades "[]" "[]"] obtain bars where
    b: "tick_loop T trades [] [] = Inr bars"
    and l: "list_all2 (\<lambda>b bar. make_tick_bar b T = Inr bar)
              (segments (\<lambda>_. 1) (of_int T) trades []) bars" by auto
  have seg: "segments (\<lambda>_. 1) (of_int T) trades [] =
      map (\<lambda>i. take (nat T) (drop (i * nat T) trades)) [0..<length trades div nat T]"
    using segments_tick_chunks[of "[]" "nat T" trades] Tn by (simp only: oi) simp
  have len: "length bars = length trades div nat T"
    using list_all2_lengthD[OF l] by (simp only: seg) simp
  have each: "make_tick_bar (take (nat T) (drop (i * nat T) trades)) T = Inr (bars ! i)"
    if i: "i < length trades div nat T" for i
  proof -
    have "i < length (segments (\<lambda>_. 1) (of_int T) trades [])" using i by (simp only: seg) simp
    from list_all2_nthD[OF l this] have
      "make_tick_bar (segments (\<lambda>_. 1) (of_int T) trades [] ! i) T = Inr (bars ! i)" .
    then show ?thesis using i by (simp only: seg) simp
  qed
  have full: "length (take (nat T) (drop (i * nat T) trades)) = nat T"
    if i: "i < length trades div nat T" for i
  proof -
    from i have "Suc i \<le> length trades div nat T" by simp
    then have "Suc i * nat T \<le> length trades div nat T * nat T" by (rule mult_le_mono1)
    also have "\<dots> \<le> length trades" by simp
    finally have "i * nat T + nat T \<le> length trades" by simp
    then show ?thesis by simp
  qed
  show ?thesis using b len each full unfolding build_tick_bars_def by blast
qed



text \<open>
  Claim C8.  Seven trades with quantities 1, 1, 1, 2, 1, 1, 1 and a volume threshold of 4
  give exactly one bar; it is made from the first four trades, with volume 5 and trade
  count 4.  The remaining three trades sum to 3 and yield no bar.
\<close>

theorem volume_scenario:
  assumes "map quantity trades = [1, 1, 1, 2, 1, 1, 1]"
  shows "\<exists>bar. build_volume_bars trades 4 = Inr [bar] \<and>
           make_volume_bar (take 4 trades) 4 = Inr bar \<and>
           volume bar = 5 \<and> trade_count bar = 4 \<and>
           length (drop 4 trades) = 3 \<and> sum_list (map quantity (drop 4 trades)) = 3"
proof -
  from assms obtain a b c d e f g where
    tr: "trades = [a, b, c, d, e, f, g]"
    and q: "quantity a = 1" "quantity b = 1" "quantity c = 1" "quantity d = 2"
           "quantity e = 1" "quantity f = 1" "quantity g = 1"
    by (auto simp: map_eq_Cons_conv)
  from make_volume_bar_ok[of "[a, b, c, d]" 4] obtain bar where
    bar: "make_volume_bar [a, b, c, d] 4 = Inr bar"
    and v: "volume bar = sum_list (map quantity [a, b, c, d])"
    and n: "trade_count bar = int (length [a, b, c, d])" by auto
  have "build_volume_bars trades 4 = Inr [bar]"
    unfolding build_volume_bars_def tr using q bar by simp
  moreover have "take 4 trades = [a, b, c, d]" unfolding tr by simp
  moreover have "volume bar = 5" using v q by simp
  moreover have "trade_count bar = 4" using n by simp
  moreover have "drop 4 trades = [e, f, g]" unfolding tr by simp
  ultimately show ?thesis using bar q by simp
qed

theorem volume_scenario_witness:
  "map quantity scenario_trades = [1, 1, 1, 2, 1, 1, 1] \<and>
   (\<exists>bar. build_volume_bars scenario_trades 4 = Inr [bar] \<and>
           make_volume_bar (take 4 scenario_trades) 4 = Inr bar \<and>
           volume bar = 5 \<and> trade_count bar = 4 \<and>
           length (drop 4 scenario_trades) = 3 \<and>
           sum_list (map quantity (drop 4 scenario_trades)) = 3)"
proof -
  have h: "map quantity scenario_trades = [1, 1, 1, 2, 1, 1, 1]"
    by (simp add: scenario_trades_def)
  show ?thesis using volume_scenario[OF h] h by blast
qed


theorem tick_bar_partition_witness:
  "(1::int) \<le> 3 \<and>
   (\<exists>bars. build_tick_bars scenario_trades 3 = Inr bars \<and> length bars = 2 \<and>
      make_tick_bar (take 3 scenario_trades) 3 = Inr (bars ! 0) \<and>
      make_tick_bar (take 3 (drop 3 scenario_trades)) 3 = Inr (bars ! 1))"
proof -
  have h: "(1::int) \<le> 3" by simp
  have n: "length scenario_trades div nat 3 = 2" by (simp add: scenario_trades_def)
  from tick_bar_partition[OF h, of scenario_trades] obtain bars where
    b: "build_tick_bars scenario_trades 3 = Inr bars"
    and l: "length bars = length scenario_trades div nat 3"
    and e: "\<forall>i < length scenario_trades div nat 3.
         make_tick_bar (take (nat 3) (drop (i * nat 3) scenario_trades)) 3 = Inr (bars ! i) \<and>
         length (take (nat 3) (drop (i * nat 3) scenario_trades)) = nat 3" by blast
  from e n have e': "make_tick_bar (take (nat 3) (drop (i * nat 3) scenario_trades)) 3 = Inr (bars ! i)"
    if "i < 2" for i using that by simp
  from e'[of 0] have e0: "make_tick_bar (take 3 scenario_trades) 3 = Inr (bars ! 0)" by simp
  from e'[of 1] have e1: "make_tick_bar (take 3 (drop 3 scenario_trades)) 3 = Inr (bars ! 1)" by simp
  show ?thesis using h b l n e0 e1 by auto
qed

subsection \<open>Paginated fetches\<close>




lemma parse_kline_row: "parse_rest_kline istr (kline_row k) = Inr k"
  by (simp add: parse_rest_kline_def kline_row_def ebind_def list_get_def)

lemma parse_rows_kline_rows:
  "parse_rows (parse_rest_kline istr) (map kline_row ks) = (ks, None)"
  by (induction ks) (simp_all add: parse_kline_row)

lemma next_cursor_kline_rows:
  assumes "ks \<noteq> []"
  shows "ebind (last_get (map kline_row ks)) (\<lambda>row.
           ebind (list_get row 6) (\<lambda>v. ebind (py_int istr v) (\<lambda>c. Inr (c + 1))))
         = Inr (close_time_ms (last ks) + 1)"
  using assms by (simp add: last_get_def last_map ebind_def list_get_def kline_row_def)

lemma served_kline_req:
  "served ds (kline_req pth page symbol' interval end_ms cursor) =
     Inr (map kline_row (take (nat page) (filter (in_range cursor end_ms) ds)))"
  by (simp add: served_def kline_req_def)

lemma series_pairwise:
  "series ds \<Longrightarrow>
     sorted_wrt (\<lambda>a b. close_time_ms a < open_time_ms b) ds \<and>
     (\<forall>k\<in>set ds. open_time_ms k \<le> close_time_ms k)"
proof (induction ds rule: series.induct)
  case 1 then show ?case by simp
next
  case (2 k) then show ?case by simp
next
  case (3 k k' ks)
  then have s: "sorted_wrt (\<lambda>a b. close_time_ms a < open_time_ms b) (k' # ks)"
    and o: "\<forall>x\<in>set (k' # ks). open_time_ms x \<le> close_time_ms x"
    and a: "open_time_ms k \<le> close_time_ms k" "close_time_ms k < open_time_ms k'" by simp_all
  have "close_time_ms k < open_time_ms x" if "x \<in> set ks" for x
  proof -
    from s that have "close_time_ms k' < open_time_ms x" by simp
    moreover from o have "open_time_ms k' \<le> close_time_ms k'" by simp
    ultimately show ?thesis using a(2) by linarith
  qed
  then show ?case using s o a by auto
qed

lemma filter_after_prefix:
  assumes sw: "sorted_wrt (\<lambda>a b. close_time_ms a < open_time_ms b) (as @ bs)"
    and oc: "\<forall>k\<in>set (as @ bs). open_time_ms k \<le> close_time_ms k"
    and rng: "\<forall>k\<in>set (as @ bs). open_time_ms k \<le> e"
    and ne: "as \<noteq> []"
  shows "filter (in_range (close_time_ms (last as) + 1) e) (as @ bs) = bs"
proof -
  let ?c = "close_time_ms (last as) + 1"
  have la: "last as \<in> set as" using ne by simp
  have sa: "sorted_wrt (\<lambda>a b. close_time_ms a < open_time_ms b) (butlast as @ [last as])"
    using sw ne by (simp add: sorted_wrt_append)
  have before: "\<not> in_range ?c e a" if "a \<in> set as" for a
  proof -
    have "open_time_ms a \<le> close_time_ms (last as)"
    proof (cases "a = last as")
      case True then show ?thesis using oc la by simp
    next
      case False
      have "set as = insert (last as) (set (butlast as))"
        using ne by (metis append_butlast_last_id list.simps(15) rotate1.simps(2) set_rotate1)
      with that False have "a \<in> set (butlast as)" by simp
      with sa have "close_time_ms a < open_time_ms (last as)"
        by (simp add: sorted_wrt_append)
      moreover have "open_time_ms a \<le> close_time_ms a" using oc that by simp
      moreover have "open_time_ms (last as) \<le> close_time_ms (last as)" using oc la by simp
      ultimately show ?thesis by linarith
    qed
    then show ?thesis by (simp add: in_range_def)
  qed
  have after: "in_range ?c e b" if "b \<in> set bs" for b
  proof -
    from sw la that have "close_time_ms (last as) < open_time_ms b"
      by (simp add: sorted_wrt_append)
    moreover have "open_time_ms b \<le> e" using rng that by simp
    ultimately show ?thesis by (simp add: in_range_def)
  qed
  have "filter (in_range ?c e) as = []" using before by (simp add: filter_empty_conv)
  moreover have "filter (in_range ?c e) bs = bs" using after by (simp add: filter_id_conv)
  ultimately show ?thesis by simp
qed


lemma remaining_after_page:
  assumes ser: "series ds" and n: "0 < n" "n \<le> length (filter (in_range c e) ds)"
  shows "filter (in_range (close_time_ms (last (take n (filter (in_range c e) ds))) + 1) e) ds
         = drop n (filter (in_range c e) ds)"
proof -
  let ?xs = "filter (in_range c e) ds"
  let ?as = "take n ?xs" and ?bs = "drop n ?xs"
  let ?c' = "close_time_ms (last ?as) + 1"
  from series_pairwise[OF ser] have sw: "sorted_wrt (\<lambda>a b. close_time_ms a < open_time_ms b) ds"
    and oc: "\<forall>k\<in>set ds. open_time_ms k \<le> close_time_ms k" by simp_all
  have ne: "?as \<noteq> []" using n by auto
  have split: "?as @ ?bs = ?xs" by simp
  have sw': "sorted_wrt (\<lambda>a b. close_time_ms a < open_time_ms b) (?as @ ?bs)"
    unfolding split using sw by (rule sorted_wrt_filter)
  have oc': "\<forall>k\<in>set (?as @ ?bs). open_time_ms k \<le> close_time_ms k"
    unfolding split using oc by simp
  have rng': "\<forall>k\<in>set (?as @ ?bs). open_time_ms k \<le> e"
    unfolding split by (simp add: in_range_def)
  have "last ?as \<in> set ?as" using ne by simp
  then have "last ?as \<in> set ?xs" by (meson in_set_takeD)
  then have "in_range c e (last ?as)" and "last ?as \<in> set ds" by simp_all
  then have cc: "c \<le> ?c'" using oc by (auto simp: in_range_def)
  have imp: "in_range ?c' e k \<Longrightarrow> in_range c e k" for k using cc by (simp add: in_range_def)
  have "filter (in_range ?c' e) ?xs = filter (\<lambda>k. in_range c e k \<and> in_range ?c' e k) ds"
    by (simp only: filter_filter)
  also have "\<dots> = filter (in_range ?c' e) ds"
    by (rule filter_cong[OF refl]) (use imp in blast)
  finally have "filter (in_range ?c' e) ds = filter (in_range ?c' e) ?xs" by (rule sym)
  also have "\<dots> = filter (in_range ?c' e) (?as @ ?bs)" by (simp only: split)
  also have "\<dots> = ?bs" by (rule filter_after_prefix[OF sw' oc' rng' ne])
  finally show ?thesis .
qed

lemma loop_step_short:
  assumes "cursor < end_ms" "int (length (filter (in_range cursor end_ms) ds)) < page"
  shows "fetch_klines_loop (Suc fuel) istr (served ds) pth page symbol' interval end_ms cursor =
         Some \<lparr>yielded = filter (in_range cursor end_ms) ds,
               exchanges = [(kline_req pth page symbol' interval end_ms cursor,
                             Inr (map kline_row (filter (in_range cursor end_ms) ds)))],
               raised = None\<rparr>"
proof -
  have t: "take (nat page) (filter (in_range cursor end_ms) ds) = filter (in_range cursor end_ms) ds"
    using assms(2) by simp
  show ?thesis
    using assms served_kline_req[of ds pth page symbol' interval end_ms cursor]
    by (simp add: kline_req_def t parse_rows_kline_rows)
qed

lemma loop_step_full:
  assumes "cursor < end_ms" "1 \<le> page" "page \<le> int (length (filter (in_range cursor end_ms) ds))"
  shows "fetch_klines_loop (Suc fuel) istr (served ds) pth page symbol' interval end_ms cursor =
         map_option
           (more (take (nat page) (filter (in_range cursor end_ms) ds))
              (kline_req pth page symbol' interval end_ms cursor,
               Inr (map kline_row (take (nat page) (filter (in_range cursor end_ms) ds)))))
           (fetch_klines_loop fuel istr (served ds) pth page symbol' interval end_ms
              (close_time_ms (last (take (nat page) (filter (in_range cursor end_ms) ds))) + 1))"
proof -
  let ?b = "take (nat page) (filter (in_range cursor end_ms) ds)"
  have len: "int (length ?b) = page" using assms(2,3) by simp
  then have ne: "?b \<noteq> []" using assms(2) by auto
  show ?thesis
    using assms(1) len served_kline_req[of ds pth page symbol' interval end_ms cursor]
      next_cursor_kline_rows[OF ne, of istr]
    by (simp add: kline_req_def parse_rows_kline_rows del: length_take)
qed


lemma last_filter_props:
  assumes "filter P xs \<noteq> []"
  shows "P (last (filter P xs))" "last (filter P xs) \<in> set xs"
proof -
  have a: "\<forall>x\<in>set (filter P xs). P x \<and> x \<in> set xs" by simp
  from last_in_set[OF assms] a show "P (last (filter P xs))" by blast
  from last_in_set[OF assms] a show "last (filter P xs) \<in> set xs" by blast
qed

lemma in_range_lower: "in_range c e k \<Longrightarrow> c \<le> open_time_ms k"
  by (simp add: in_range_def)

lemma cursor_before_end:
  assumes oc: "\<forall>k\<in>set ds. open_time_ms k \<le> close_time_ms k"
    and ne: "filter (in_range c e) ds \<noteq> []"
    and cl: "close_time_ms (last (filter (in_range c e) ds)) + 1 < e"
  shows "c < e"
proof -
  from last_filter_props[OF ne] have a: "in_range c e (last (filter (in_range c e) ds))"
    and b: "last (filter (in_range c e) ds) \<in> set ds" .
  from in_range_lower[OF a] have "c \<le> open_time_ms (last (filter (in_range c e) ds))" .
  moreover from oc b have "open_time_ms (last (filter (in_range c e) ds))
      \<le> close_time_ms (last (filter (in_range c e) ds))" by blast
  ultimately show ?thesis using cl by linarith
qed



lemma paginate_exact:
  assumes ser: "series ds" and pg: "1 \<le> page"
  shows "length (filter (in_range cursor end_ms) ds) = Suc j * nat page \<Longrightarrow>
         close_time_ms (last (filter (in_range cursor end_ms) ds)) + 1 < end_ms \<Longrightarrow>
         Suc j < fuel \<Longrightarrow>
         \<exists>r. fetch_klines_loop fuel istr (served ds) pth page symbol' interval end_ms cursor = Some r \<and>
             length (exchanges r) = Suc j + 1 \<and> snd (last (exchanges r)) = Inr [] \<and>
             yielded r = filter (in_range cursor end_ms) ds \<and> raised r = None"
proof (induction j arbitrary: cursor fuel)
  case 0
  let ?xs = "filter (in_range cursor end_ms) ds"
  from series_pairwise[OF ser] have oc: "\<forall>k\<in>set ds. open_time_ms k \<le> close_time_ms k" by simp
  from 0(1) pg have ne: "?xs \<noteq> []" by auto
  have lt: "cursor < end_ms" by (rule cursor_before_end[OF oc ne 0(2)])
  from 0(3) obtain f1 where f: "fuel = Suc (Suc f1)" by (cases fuel; cases "fuel - 1") auto
  have full: "page \<le> int (length ?xs)" using 0(1) pg by simp
  have tk: "take (nat page) ?xs = ?xs" using 0(1) by simp
  let ?c' = "close_time_ms (last ?xs) + 1"
  have n: "0 < nat page" "nat page \<le> length ?xs" using pg full by simp_all
  have rem: "filter (in_range ?c' end_ms) ds = []"
    using remaining_after_page[OF ser n] 0(1) by (simp add: tk)
  have short: "int (length (filter (in_range ?c' end_ms) ds)) < page" using pg by (simp add: rem)
  show ?case
    using loop_step_full[OF lt pg full, of "Suc f1" istr pth symbol' interval]
      loop_step_short[OF 0(2) short, of f1 istr pth symbol' interval]
    by (simp add: f tk rem more_def)
next
  case (Suc j)
  let ?xs = "filter (in_range cursor end_ms) ds"
  from series_pairwise[OF ser] have oc: "\<forall>k\<in>set ds. open_time_ms k \<le> close_time_ms k" by simp
  from Suc.prems(1) pg have ne: "?xs \<noteq> []" by auto
  have lt: "cursor < end_ms" by (rule cursor_before_end[OF oc ne Suc.prems(2)])
  from Suc.prems(3) obtain f1 where f: "fuel = Suc f1" and f1: "Suc j < f1" by (cases fuel) auto
  have full: "page \<le> int (length ?xs)" using Suc.prems(1) pg by simp
  let ?c' = "close_time_ms (last (take (nat page) ?xs)) + 1"
  have n: "0 < nat page" "nat page \<le> length ?xs" using pg full by simp_all
  have rem: "filter (in_range ?c' end_ms) ds = drop (nat page) ?xs"
    by (rule remaining_after_page[OF ser n])
  have l: "length (filter (in_range ?c' end_ms) ds) = Suc j * nat page"
    using Suc.prems(1) by (simp add: rem)
  have dne: "drop (nat page) ?xs \<noteq> []" using l n rem by auto
  then have "last (drop (nat page) ?xs) = last ?xs" by (simp add: last_drop)
  then have c: "close_time_ms (last (filter (in_range ?c' end_ms) ds)) + 1 < end_ms"
    using Suc.prems(2) by (simp add: rem)
  from Suc.IH[OF l c f1] obtain r where
    r: "fetch_klines_loop f1 istr (served ds) pth page symbol' interval end_ms ?c' = Some r"
    "length (exchanges r) = Suc j + 1" "snd (last (exchanges r)) = Inr []"
    "yielded r = filter (in_range ?c' end_ms) ds" "raised r = None" by blast
  from r(2) have xne: "exchanges r \<noteq> []" by auto
  show ?case
    using loop_step_full[OF lt pg full, of f1 istr pth symbol' interval] r xne
    by (simp add: f more_def rem)
qed

text \<open>
  Claim C6.  When the records in range number \<open>k\<close> full pages, \<open>k \<ge> 1\<close>, and the range is
  still open after the last of them closes, the paginating fetch issues exactly
  \<open>k + 1\<close> requests and the last one is answered with no record.
\<close>

theorem pagination_exact_multiple:
  assumes "series ds" "1 \<le> page" "0 < k"
    "length (unpaged ds start_ms end_ms) = k * nat page"
    "close_time_ms (last (unpaged ds start_ms end_ms)) + 1 < end_ms"
    "k < fuel"
  shows "\<exists>r. fetch_klines_loop fuel istr (served ds) pth page symbol' interval end_ms start_ms = Some r \<and>
             length (exchanges r) = k + 1 \<and> snd (last (exchanges r)) = Inr [] \<and>
             yielded r = unpaged ds start_ms end_ms \<and> raised r = None"
proof -
  from assms(3) obtain j where k: "k = Suc j" by (cases k) auto
  show ?thesis
    using paginate_exact[OF assms(1,2), of start_ms end_ms j fuel istr pth symbol' interval]
      assms(4-6)
    unfolding unpaged_def k by simp
qed

lemma minute_klines_in_range:
  assumes "60000 * int n \<le> e + 60000"
  shows "filter (in_range 0 e) (minute_klines n) = minute_klines n"
proof -
  have "in_range 0 e k" if "k \<in> set (minute_klines n)" for k
  proof -
    from that obtain i where "i < n" "k = minute_kline i" by (auto simp: minute_klines_def)
    then show ?thesis using assms by (simp add: in_range_def minute_kline_def)
  qed
  then show ?thesis by (simp add: filter_id_conv)
qed


lemma last_minute_klines: "last (minute_klines (Suc n)) = minute_kline n"
  by (simp add: minute_klines_def)



theorem pagination_exact_multiple_witness:
  "series (minute_klines 6) \<and> (1::int) \<le> 3 \<and> (0::nat) < 2 \<and>
   length (unpaged (minute_klines 6) 0 400000) = 2 * nat 3 \<and>
   close_time_ms (last (unpaged (minute_klines 6) 0 400000)) + 1 < 400000 \<and> (2::nat) < 3 \<and>
   (\<exists>r. fetch_klines_loop 3 no_istr (served (minute_klines 6)) ''/api/v3/klines'' 3
           ''BTCUSDT'' M1 400000 0 = Some r \<and>
        length (exchanges r) = 3 \<and> snd (last (exchanges r)) = Inr [] \<and>
        yielded r = unpaged (minute_klines 6) 0 400000 \<and> raised r = None)"
proof -
  have h1: "series (minute_klines 6)" by (simp add: minute_klines_def minute_kline_def upt_rec)
  have h2: "(1::int) \<le> 3" by simp
  have h3: "(0::nat) < 2" by simp
  have u: "unpaged (minute_klines 6) 0 400000 = minute_klines 6"
    unfolding unpaged_def by (rule minute_klines_in_range) simp
  have n: "length (minute_klines 6) = 6" by (simp add: minute_klines_def)
  have h4: "length (unpaged (minute_klines 6) 0 400000) = 2 * nat 3" by (simp add: u n)
  have "last (minute_klines 6) = minute_kline 5" using last_minute_klines[of 5] by simp
  then have h5: "close_time_ms (last (unpaged (minute_klines 6) 0 400000)) + 1 < 400000"
    by (simp add: u minute_kline_def)
  have h6: "(2::nat) < 3" by simp
  from pagination_exact_multiple[OF h1 h2 h3 h4 h5 h6, of no_istr "''/api/v3/klines''" "''BTCUSDT''" M1]
  show ?thesis using h1 h2 h4 h5 by auto
qed


subsection \<open>Stream gating\<close>

lemma parse_rows_all:
  "\<forall>m\<in>set feed. \<exists>r. f m = Inr r \<Longrightarrow>
   \<exists>rs. parse_rows f feed = (rs, None) \<and> list_all2 (\<lambda>m r. f m = Inr r) feed rs"
proof (induction feed)
  case Nil
  show ?case by simp
next
  case (Cons m feed)
  then obtain r where r: "f m = Inr r" by auto
  from Cons obtain rs where rs: "parse_rows f feed = (rs, None)"
    "list_all2 (\<lambda>m r. f m = Inr r) feed rs" by auto
  have "parse_rows f (m # feed) = (r # rs, None)" using r rs(1) by simp
  moreover have "list_all2 (\<lambda>m r. f m = Inr r) (m # feed) (r # rs)" using r rs(2) by simp
  ultimately show ?case by blast
qed

lemma stream_klines_finals:
  "\<forall>m\<in>set feed. \<exists>k b. dict_get m ''k'' = Inr k \<and> py_getitem k ''x'' = Inr (JBool b) \<and>
       (b \<longrightarrow> (\<exists>r. parse_ws_kline istr k = Inr r)) \<Longrightarrow>
   \<exists>rs. stream_klines istr feed = (rs, None) \<and>
        list_all2 (\<lambda>m r. \<exists>k. dict_get m ''k'' = Inr k \<and> parse_ws_kline istr k = Inr r)
          (filter is_final feed) rs"
proof (induction feed)
  case Nil
  show ?case by simp
next
  case (Cons m feed)
  then obtain k b where k: "dict_get m ''k'' = Inr k" and x: "py_getitem k ''x'' = Inr (JBool b)"
    and p: "b \<longrightarrow> (\<exists>r. parse_ws_kline istr k = Inr r)" by auto
  from Cons obtain rs where rs: "stream_klines istr feed = (rs, None)"
    "list_all2 (\<lambda>m r. \<exists>k. dict_get m ''k'' = Inr k \<and> parse_ws_kline istr k = Inr r)
          (filter is_final feed) rs" by auto
  have fin: "is_final m = b" using k x by (simp add: is_final_def)
  show ?case
  proof (cases b)
    case True
    with p obtain r where r: "parse_ws_kline istr k = Inr r" by auto
    have "stream_klines istr (m # feed) = (r # rs, None)" using k x True r rs(1) by simp
    moreover have "list_all2 (\<lambda>m r. \<exists>k. dict_get m ''k'' = Inr k \<and> parse_ws_kline istr k = Inr r)
          (filter is_final (m # feed)) (r # rs)" using fin True k r rs(2) by simp
    ultimately show ?thesis by blast
  next
    case False
    have "stream_klines istr (m # feed) = (rs, None)" using k x False rs(1) by simp
    moreover have "list_all2 (\<lambda>m r. \<exists>k. dict_get m ''k'' = Inr k \<and> parse_ws_kline istr k = Inr r)
          (filter is_final (m # feed)) rs" using fin False rs(2) by simp
    ultimately show ?thesis by blast
  qed
qed

text \<open>
  Claim C10.  On a feed of kline messages, each carrying \<open>k\<close> with a boolean \<open>x\<close> and
  decodable when \<open>x\<close> is true, \<open>stream_klines\<close> forwards the decoded records of exactly the
  messages whose \<open>x\<close> is true, in arrival order, and drops the others: as many records as
  there are final messages (three for a feed of five partial and three final ones).
  \<open>stream_trades\<close> and \<open>stream_mark_price\<close> forward the decoded record of every message.
\<close>

theorem stream_gating:
  assumes "\<forall>m\<in>set feed. \<exists>k b. dict_get m ''k'' = Inr k \<and> py_getitem k ''x'' = Inr (JBool b) \<and>
             (b \<longrightarrow> (\<exists>r. parse_ws_kline istr k = Inr r))"
    and "\<forall>m\<in>set tfeed. \<exists>t. parse_ws_trade dec mulstr m = Inr t"
    and "\<forall>m\<in>set mfeed. \<exists>p. parse_ws_mark_price istr m = Inr p"
  shows "(\<exists>rs. stream_klines istr feed = (rs, None) \<and>
            length rs = length (filter is_final feed) \<and>
            list_all2 (\<lambda>m r. \<exists>k. dict_get m ''k'' = Inr k \<and> parse_ws_kline istr k = Inr r)
              (filter is_final feed) rs) \<and>
         (\<exists>ts. stream_trades dec mulstr tfeed = (ts, None) \<and>
            list_all2 (\<lambda>m t. parse_ws_trade dec mulstr m = Inr t) tfeed ts) \<and>
         (\<exists>ps. stream_mark_price istr mfeed = (ps, None) \<and>
            list_all2 (\<lambda>m p. parse_ws_mark_price istr m = Inr p) mfeed ps)"
proof (intro conjI)
  from stream_klines_finals[OF assms(1)] obtain rs where
    rs: "stream_klines istr feed = (rs, None)"
    "list_all2 (\<lambda>m r. \<exists>k. dict_get m ''k'' = Inr k \<and> parse_ws_kline istr k = Inr r)
       (filter is_final feed) rs" by blast
  from list_all2_lengthD[OF rs(2)] have "length rs = length (filter is_final feed)" by simp
  with rs show "\<exists>rs. stream_klines istr feed = (rs, None) \<and>
            length rs = length (filter is_final feed) \<and>
            list_all2 (\<lambda>m r. \<exists>k. dict_get m ''k'' = Inr k \<and> parse_ws_kline istr k = Inr r)
              (filter is_final feed) rs" by blast
next
  show "\<exists>ts. stream_trades dec mulstr tfeed = (ts, None) \<and>
            list_all2 (\<lambda>m t. parse_ws_trade dec mulstr m = Inr t) tfeed ts"
    unfolding stream_trades_def by (rule parse_rows_all[OF assms(2)])
next
  show "\<exists>ps. stream_mark_price istr mfeed = (ps, None) \<and>
            list_all2 (\<lambda>m p. parse_ws_mark_price istr m = Inr p) mfeed ps"
    unfolding stream_mark_price_def by (rule parse_rows_all[OF assms(3)])
qed

lemma kline_msg_ok:
  "\<exists>k b'. dict_get (kline_msg t b) ''k'' = Inr k \<and> py_getitem k ''x'' = Inr (JBool b') \<and>
      (b' \<longrightarrow> (\<exists>r. parse_ws_kline no_istr k = Inr r))"
  by (simp add: kline_msg_def dict_get_def parse_ws_kline_def ebind_def)

lemma kline_msg_final: "is_final (kline_msg t b) = b"
  by (simp add: kline_msg_def is_final_def dict_get_def)

theorem stream_gating_witness:
  "length (filter is_final kline_feed) = 3 \<and> length (filter (\<lambda>m. \<not> is_final m) kline_feed) = 5 \<and>
   (\<exists>rs. stream_klines no_istr kline_feed = (rs, None) \<and> length rs = 3 \<and>
      map open_time_ms rs = [0, 60000, 120000]) \<and>
   (\<exists>ts. stream_trades sample_dec sample_mulstr [trade_msg 1, trade_msg 2] = (ts, None) \<and>
      map trade_id ts = [JInt 1, JInt 2]) \<and>
   (\<exists>ps. stream_mark_price no_istr [mark_msg 1000, mark_msg 4000] = (ps, None) \<and>
      map time_ms ps = [1000, 4000])"
proof -
  have h1: "\<forall>m\<in>set kline_feed. \<exists>k b. dict_get m ''k'' = Inr k \<and>
      py_getitem k ''x'' = Inr (JBool b) \<and> (b \<longrightarrow> (\<exists>r. parse_ws_kline no_istr k = Inr r))"
    using kline_msg_ok by (simp add: kline_feed_def)
  have t: "parse_ws_trade sample_dec sample_mulstr (trade_msg i) =
      Inr \<lparr>trade_id = JInt i, RawTrade.price = JStr ''100.00'', qty = JStr ''0.50'',
           quote_qty = JStr ''50.0000'', time = JInt (1000 * i),
           RawTrade.is_buyer_maker = JBool True\<rparr>" for i
    by (simp add: parse_ws_trade_def trade_msg_def ebind_def dict_get_def sample_dec_def
        sample_mulstr_def plain_number_def is_digit_def strip_zeros_def nat_of_digits_def
        digit_value_def Decimal_str_def)
  have h2: "\<forall>m\<in>set [trade_msg 1, trade_msg 2]. \<exists>t. parse_ws_trade sample_dec sample_mulstr m = Inr t"
    by (simp add: t)
  have p: "parse_ws_mark_price no_istr (mark_msg i) =
      Inr \<lparr>RawMarkPrice.symbol = JStr ''BTCUSDT'', RawMarkPrice.mark_price = JStr ''42000.50'',
           index_price = JStr ''42001.00'', last_funding_rate = JStr ''0.00010000'',
           next_funding_time_ms = i + 28800000, time_ms = i\<rparr>" for i
    by (simp add: parse_ws_mark_price_def mark_msg_def ebind_def dict_get_def)
  have h3: "\<forall>m\<in>set [mark_msg 1000, mark_msg 4000]. \<exists>p. parse_ws_mark_price no_istr m = Inr p"
    by (simp add: p)
  have f: "filter is_final kline_feed = [kline_msg 0 True, kline_msg 60000 True, kline_msg 120000 True]"
    "length (filter (\<lambda>m. \<not> is_final m) kline_feed) = 5"
    by (simp_all add: kline_feed_def kline_msg_final)
  have k: "dict_get (kline_msg t b) ''k'' = Inr k \<Longrightarrow> parse_ws_kline no_istr k = Inr r \<Longrightarrow>
      open_time_ms r = t" for t b k r
    by (auto simp: kline_msg_def dict_get_def parse_ws_kline_def ebind_def)
  from stream_gating[OF h1 h2 h3] obtain rs ts ps where
    rs: "stream_klines no_istr kline_feed = (rs, None)"
      "length rs = length (filter is_final kline_feed)"
      "list_all2 (\<lambda>m r. \<exists>k. dict_get m ''k'' = Inr k \<and> parse_ws_kline no_istr k = Inr r)
              (filter is_final kline_feed) rs"
    and ts: "stream_trades sample_dec sample_mulstr [trade_msg 1, trade_msg 2] = (ts, None)"
      "list_all2 (\<lambda>m t. parse_ws_trade sample_dec sample_mulstr m = Inr t) [trade_msg 1, trade_msg 2] ts"
    and ps: "stream_mark_price no_istr [mark_msg 1000, mark_msg 4000] = (ps, None)"
      "list_all2 (\<lambda>m p. parse_ws_mark_price no_istr m = Inr p) [mark_msg 1000, mark_msg 4000] ps"
    by blast
  from rs(3) have "map open_time_ms rs = [0, 60000, 120000]"
    unfolding f(1) by (auto simp: list_all2_Cons1 dest: k)
  moreover from ts(2) have "map trade_id ts = [JInt 1, JInt 2]"
    by (auto simp: list_all2_Cons1 t)
  moreover from ps(2) have "map time_ms ps = [1000, 4000]"
    by (auto simp: list_all2_Cons1 p)
  ultimately show ?thesis using rs(1,2) ts(1) ps(1) f by auto
qed

subsection \<open>Decimal text and missing fields\<close>











lemma dict_get_missing: "map_of d k = None \<Longrightarrow> isl (dict_get d k)"
  by (simp add: dict_get_def)

lemma list_get_short: "length row \<le> i \<Longrightarrow> isl (list_get row i)"
  by (simp add: list_get_def)


















end
